theory Spec2Isabelle
  imports Complex_Main
begin

section \<open>Python values and errors\<close>

text \<open>
  The program is \<^verbatim>\<open>src/main.py\<close>: the class \<^verbatim>\<open>GestureArtApp\<close>, whose method
  \<^verbatim>\<open>run\<close> is the frame loop. It imports \<^verbatim>\<open>HandTracker\<close>, \<^verbatim>\<open>GestureRecognizer\<close>,
  \<^verbatim>\<open>CanvasEngine\<close>, \<^verbatim>\<open>BrushType\<close> and \<^verbatim>\<open>UIManager\<close> from modules of the repository
  that are not among the source files; what the specification says about the canvas
  engine and the recogniser is modelled below, marked as such.

  Values that travel through the dictionaries of the UI channel are dynamically typed;
  \<open>pyval\<close> holds the shapes the loop distinguishes. Floats are modelled as reals
  (no NaN, no infinities, no rounding).
\<close>

datatype pyval = PNone | PBool bool | PInt int | PFloat real | PStr string | PTuple "pyval list"

datatype py_error = IndexError | KeyError | ValueError | TypeError | OverflowError

section \<open>The canvas engine\<close>

type_synonym pixel = "nat \<times> nat \<times> nat"
type_synonym pixels = "pixel list"
type_synonym point = "int \<times> int"
type_synonym stroke_point = "int \<times> int \<times> real"

text \<open>
  A history entry is a reversible edit. A committed stroke keeps its points, the raster
  before its first segment and the raster it produced; a clear keeps the raster it wiped.
\<close>

datatype history_entry =
    StrokeCommitted "stroke_point list" pixels pixels
  | ClearEntry pixels

text \<open>
  Modelled from the spec: the state of \<^verbatim>\<open>CanvasEngine\<close> (module \<^verbatim>\<open>canvas_engine\<close> is
  missing). Section 3 of the specification: a raster of width times height pixels, the
  brush configuration (type, size, opacity, hardness, flow, pressure scale, colour), the
  active-drawing slot and a history with a single current position. A brush type is
  named by its member name in \<^verbatim>\<open>BrushType\<close>.
\<close>

record CanvasEngine =
  width :: nat
  height :: nat
  background_color :: pixel
  raster :: pixels
  brush_type :: string
  brush_size :: int
  opacity :: real
  hardness :: real
  flow :: real
  pressure_scale :: real
  color :: pyval
  active_stroke :: "(stroke_point list \<times> pixels) option"
  history :: "history_entry list"
  position :: nat

text \<open>
  The rasteriser of one stroke segment (previous point, if any, to the new point, under
  the current brush configuration) is floating-point alpha blending in the
  specification; it is a parameter of \<open>draw\<close>.
\<close>

type_synonym renderer = "CanvasEngine \<Rightarrow> stroke_point option \<Rightarrow> stroke_point \<Rightarrow> pixels"

definition blank :: "CanvasEngine \<Rightarrow> pixels" where
  "blank c = replicate (width c * height c) (background_color c)"

text \<open>
  Modelled from the spec: the constructor \<^verbatim>\<open>CanvasEngine(width, height, background_color)\<close>
  (missing). The raster starts as the background, nothing is drawn or recorded. The
  initial brush configuration is not stated, so it is taken from \<open>cfg\<close>.
\<close>

definition CanvasEngine_init :: "CanvasEngine \<Rightarrow> nat \<Rightarrow> nat \<Rightarrow> pixel \<Rightarrow> CanvasEngine" where
  "CanvasEngine_init cfg w h bg =
     cfg\<lparr>width := w, height := h, background_color := bg,
         raster := replicate (w * h) bg,
         active_stroke := None, history := [], position := 0\<rparr>"

fun prior_raster :: "history_entry \<Rightarrow> pixels" where
  "prior_raster (StrokeCommitted pts prior result) = prior"
| "prior_raster (ClearEntry prior) = prior"

fun reapply :: "CanvasEngine \<Rightarrow> history_entry \<Rightarrow> pixels" where
  "reapply c (StrokeCommitted pts prior result) = result"
| "reapply c (ClearEntry prior) = blank c"

text \<open>
  Modelled from the spec: committing an edit (part of the missing \<^verbatim>\<open>CanvasEngine\<close>).
  "Any new edit after an undo discards all entries beyond the current position": the
  entry is appended to the entries up to the cursor and the cursor moves past it.
\<close>

definition commit :: "history_entry \<Rightarrow> CanvasEngine \<Rightarrow> CanvasEngine" where
  "commit e c = c\<lparr>history := take (position c) (history c) @ [e],
                  position := Suc (position c)\<rparr>"

text \<open>
  Modelled from the spec: sealing the active stroke (part of the missing
  \<^verbatim>\<open>CanvasEngine.draw\<close>). "The active stroke is sealed and committed as one HistoryEntry";
  with no active stroke there is nothing to commit.
\<close>

definition seal_stroke :: "CanvasEngine \<Rightarrow> CanvasEngine" where
  "seal_stroke c =
     (case active_stroke c of
        None \<Rightarrow> c
      | Some (pts, prior) \<Rightarrow>
          commit (StrokeCommitted pts prior (raster c)) (c\<lparr>active_stroke := None\<rparr>))"

text \<open>
  Modelled from the spec: \<^verbatim>\<open>CanvasEngine.draw(point, pressure, is_drawing)\<close> (missing).
  A non-null point with \<open>is_drawing\<close> is appended to the active stroke (created if none is
  active, remembering the raster before it) and the new segment is rasterised at once,
  not yet committed. A null point, or \<open>is_drawing\<close> false, ends the drawing: the stroke is
  sealed.
\<close>

definition draw :: "renderer \<Rightarrow> point option \<Rightarrow> real \<Rightarrow> bool \<Rightarrow> CanvasEngine \<Rightarrow> CanvasEngine" where
  "draw render pt pressure is_drawing c =
     (case pt of
        None \<Rightarrow> seal_stroke c
      | Some (x, y) \<Rightarrow>
          if is_drawing then
            (let sp = (x, y, pressure);
                 a = (case active_stroke c of None \<Rightarrow> ([], raster c) | Some a \<Rightarrow> a);
                 prev = (if fst a = [] then None else Some (last (fst a)))
             in c\<lparr>active_stroke := Some (fst a @ [sp], snd a),
                  raster := render c prev sp\<rparr>)
          else seal_stroke c)"

text \<open>
  Modelled from the spec: the call \<^verbatim>\<open>draw(None)\<close> of \<^verbatim>\<open>main.py\<close> line 54 (missing
  method). It leaves \<open>pressure\<close> and \<open>is_drawing\<close> at their defaults, which are not in
  the source files; a null point is a pen-up whatever they are.
\<close>

definition draw_None :: "CanvasEngine \<Rightarrow> CanvasEngine" where
  "draw_None c = seal_stroke c"

text \<open>
  Modelled from the spec: \<^verbatim>\<open>CanvasEngine.clear()\<close> (missing). It "commits a clear
  HistoryEntry capturing the prior raster, then resets raster to background color".
\<close>

definition clear :: "CanvasEngine \<Rightarrow> CanvasEngine" where
  "clear c = (commit (ClearEntry (raster c)) c)\<lparr>raster := blank c\<rparr>"

text \<open>
  Modelled from the spec: \<^verbatim>\<open>CanvasEngine.undo()\<close> and \<^verbatim>\<open>redo()\<close> (missing). They "move the
  history cursor one step; no-op (not an error) at either boundary"; "undo moves position
  back and restores prior raster; redo moves forward and reapplies".
\<close>

definition undo :: "CanvasEngine \<Rightarrow> CanvasEngine" where
  "undo c =
     (if 0 < position c \<and> position c \<le> length (history c) then
        c\<lparr>position := position c - 1,
          raster := prior_raster (history c ! (position c - 1))\<rparr>
      else c)"

definition redo :: "CanvasEngine \<Rightarrow> CanvasEngine" where
  "redo c =
     (if position c < length (history c) then
        c\<lparr>position := Suc (position c),
          raster := reapply c (history c ! position c)\<rparr>
      else c)"










text \<open>
  A brush configuration for concrete runs, and a small new canvas with it: two by one
  pixels, white background.
\<close>

definition plain_brush :: CanvasEngine where
  "plain_brush =
     \<lparr>width = 0, height = 0, background_color = (0, 0, 0), raster = [],
      brush_type = ''PENCIL'', brush_size = 5,
      opacity = 1, hardness = 1, flow = 1, pressure_scale = 1,
      color = PTuple [PInt 0, PInt 0, PInt 0],
      active_stroke = None, history = [], position = 0\<rparr>"

definition canvas0 :: CanvasEngine where
  "canvas0 = CanvasEngine_init plain_brush 2 1 (255, 255, 255)"

text \<open>
  A renderer for concrete runs: it paints the first pixel black. Any renderer that
  changes the raster would do.
\<close>

definition dot_renderer :: renderer where
  "dot_renderer c prev sp = (case raster c of [] \<Rightarrow> [] | p # ps \<Rightarrow> (0, 0, 0) # ps)"

text \<open>One stroke drawn and committed on the small canvas, then undone.\<close>

definition undone_canvas :: CanvasEngine where
  "undone_canvas = undo (draw_None (draw dot_renderer (Some (0, 0)) 1 True canvas0))"







text \<open>A new stroke begun on the canvas whose first stroke has been undone.\<close>

definition redrawn_canvas :: CanvasEngine where
  "redrawn_canvas = draw dot_renderer (Some (1, 0)) 1 True undone_canvas"

section \<open>The gesture recogniser\<close>

text \<open>
  The two enumerations of \<^verbatim>\<open>gesture_recognition\<close>. \<^verbatim>\<open>main.py\<close> names every member of
  \<^verbatim>\<open>GestureType\<close> listed here and the members \<^verbatim>\<open>NONE\<close> and \<^verbatim>\<open>COMPLETED\<close> of
  \<^verbatim>\<open>GestureState\<close>; \<^verbatim>\<open>IN_PROGRESS\<close> is the third member section 3 of the specification
  gives. \<open>STATE_NONE\<close> stands for \<^verbatim>\<open>GestureState.NONE\<close>.
\<close>

datatype GestureType = NONE | DRAW | CLEAR | UNDO | REDO | SAVE | TOOL_CHANGE | SELECT

datatype GestureState = STATE_NONE | IN_PROGRESS | COMPLETED

text \<open>
  Modelled from the spec: the session state of \<^verbatim>\<open>GestureRecognizer\<close> (module
  \<^verbatim>\<open>gesture_recognition\<close> is missing). Section 3: "a rolling history of recent (gesture,
  confidence) observations and a last fired gesture tag", a confidence threshold and a
  minimum hold duration, the debounce window, counted in frames. The history keeps the
  newest observation first and at most one window of them.
\<close>

record GestureRecognizer =
  detection_threshold :: real
  debounce_window :: nat
  observations :: "(GestureType \<times> real) list"
  last_fired :: GestureType

text \<open>
  Modelled from the spec: the constructor \<^verbatim>\<open>GestureRecognizer(detection_threshold)\<close>
  (missing), with the debounce window as a second argument.
\<close>

definition GestureRecognizer_init :: "real \<Rightarrow> nat \<Rightarrow> GestureRecognizer" where
  "GestureRecognizer_init thr n =
     \<lparr>detection_threshold = thr, debounce_window = n, observations = [], last_fired = NONE\<rparr>"

text \<open>
  Modelled from the spec: the out-of-band reset of the session state on a hand-loss
  timeout (missing).
\<close>

definition reset_session :: "GestureRecognizer \<Rightarrow> GestureRecognizer" where
  "reset_session r = r\<lparr>observations := [], last_fired := NONE\<rparr>"

text \<open>
  The number of newest observations, without a gap, that show gesture \<open>g\<close>.
\<close>

definition held_frames :: "GestureType \<Rightarrow> (GestureType \<times> real) list \<Rightarrow> nat" where
  "held_frames g obs = length (takeWhile (\<lambda>ob. fst ob = g) obs)"

text \<open>
  Modelled from the spec: the debounce state machine of
  \<^verbatim>\<open>GestureRecognizer.recognize_gesture\<close> (missing), section 4.1. The frame's raw match
  \<open>(g0, conf)\<close> is what the signature table and the geometric checks give for the
  landmarks and the finger vector (floating-point geometry, see \<open>recognize_gesture\<close>).
  \<^item> A match below the threshold "yields GestureType.NONE regardless of finger pattern";
    no match resets the candidate.
  \<^item> DRAW "reports in progress immediately".
  \<^item> Any other gesture is a candidate until it "has exceeded threshold for N consecutive
    frames"; then COMPLETED "fires exactly once, state then returns to IDLE for that
    gesture type while the pose is still held": the frames after the firing report
    NONE, until the pose changes, which clears the last-fired tag.
\<close>

definition observe :: "GestureRecognizer \<Rightarrow> GestureType \<times> real
    \<Rightarrow> (GestureType \<times> real \<times> GestureState) \<times> GestureRecognizer" where
  "observe r raw =
     (let conf = snd raw;
          g = (if conf < detection_threshold r then NONE else fst raw);
          obs = take (debounce_window r) ((g, conf) # observations r);
          r1 = r\<lparr>observations := obs\<rparr>
      in if g = NONE then ((NONE, conf, STATE_NONE), r1\<lparr>last_fired := NONE\<rparr>)
         else if g = DRAW then ((DRAW, conf, IN_PROGRESS), r1\<lparr>last_fired := NONE\<rparr>)
         else if last_fired r = g then ((NONE, conf, STATE_NONE), r1)
         else if debounce_window r \<le> held_frames g obs
           then ((g, conf, COMPLETED), r1\<lparr>last_fired := g\<rparr>)
         else ((g, conf, IN_PROGRESS), r1\<lparr>last_fired := NONE\<rparr>))"

text \<open>
  Modelled from the spec: \<^verbatim>\<open>GestureRecognizer.recognize_gesture(landmarks, fingers)\<close>
  (missing). The classifier \<open>classify\<close>, the priority-ordered signature table with its
  confidence score, is a parameter.
\<close>

definition recognize_gesture :: "(int list list \<Rightarrow> bool list \<Rightarrow> GestureType \<times> real)
    \<Rightarrow> GestureRecognizer \<Rightarrow> int list list \<Rightarrow> bool list
    \<Rightarrow> (GestureType \<times> real \<times> GestureState) \<times> GestureRecognizer" where
  "recognize_gesture classify r landmarks fingers = observe r (classify landmarks fingers)"

text \<open>The reports of the recogniser over a stream of raw matches, one per frame.\<close>

fun reports :: "GestureRecognizer \<Rightarrow> (GestureType \<times> real) list
    \<Rightarrow> (GestureType \<times> real \<times> GestureState) list" where
  "reports r [] = []"
| "reports r (raw # raws) = fst (observe r raw) # reports (snd (observe r raw)) raws"

text \<open>The session state after a stream of raw matches.\<close>

fun session_after :: "GestureRecognizer \<Rightarrow> (GestureType \<times> real) list \<Rightarrow> GestureRecognizer" where
  "session_after r [] = r"
| "session_after r (raw # raws) = session_after (snd (observe r raw)) raws"

text \<open>The gesture a raw match counts as: none when its confidence is below the threshold.\<close>

definition effective :: "real \<Rightarrow> GestureType \<times> real \<Rightarrow> GestureType" where
  "effective thr raw = (if snd raw < thr then NONE else fst raw)"

definition gesture_of :: "GestureType \<times> real \<times> GestureState \<Rightarrow> GestureType" where
  "gesture_of rep = fst rep"

definition state_of :: "GestureType \<times> real \<times> GestureState \<Rightarrow> GestureState" where
  "state_of rep = snd (snd rep)"

text \<open>A report without its confidence.\<close>

definition summary :: "GestureType \<times> real \<times> GestureState \<Rightarrow> GestureType \<times> GestureState" where
  "summary rep = (gesture_of rep, state_of rep)"

text \<open>
  What the state machine of section 4.1 reports on frame \<open>i + 1\<close> of a pose held from a
  fresh start, with a debounce window of \<open>n\<close> frames: a candidate before frame \<open>n\<close>,
  completed on frame \<open>n\<close>, nothing afterwards.
\<close>

definition phase :: "nat \<Rightarrow> GestureType \<Rightarrow> nat \<Rightarrow> GestureType \<times> GestureState" where
  "phase n g i =
     (if Suc i < n then (g, IN_PROGRESS)
      else if Suc i = n then (g, COMPLETED)
      else (NONE, STATE_NONE))"

section \<open>The application loop of \<^verbatim>\<open>src/main.py\<close>\<close>

unbundle bit_operations_syntax

text \<open>
  \<^verbatim>\<open>GestureArtApp.run\<close> calls into objects whose classes are not among the source files.
  The canvas is kept abstract: its state is a type variable and every method the loop
  calls is a field of \<open>collaborators\<close>, so what is proved of the loop holds for any
  canvas engine. \<open>canvas_draw_None\<close> is the call \<^verbatim>\<open>draw(None)\<close>, with the two other
  arguments at their defaults, and \<open>canvas_brush_type\<close> reads the attribute
  \<^verbatim>\<open>canvas.brush_type\<close>. A member of the enumeration \<^verbatim>\<open>BrushType\<close> is identified with
  its name: \<open>BrushType\<close> lists the members in definition order (\<^verbatim>\<open>list(BrushType)\<close>)
  and \<open>BrushType_getitem\<close> is the lookup \<^verbatim>\<open>BrushType[name]\<close>, \<open>None\<close> where it raises
  \<^verbatim>\<open>KeyError\<close>. The last three fields are Python's own \<^verbatim>\<open>str.upper\<close>, \<^verbatim>\<open>int(...)\<close> and
  \<^verbatim>\<open>float(...)\<close>, with the exception they raise, if any; strings are sequences of
  bytes (UTF-8), and nothing is assumed of the three.
\<close>

record 'c collaborators =
  canvas_draw :: "point option \<Rightarrow> real \<Rightarrow> bool \<Rightarrow> 'c \<Rightarrow> 'c"
  canvas_draw_None :: "'c \<Rightarrow> 'c"
  canvas_clear :: "'c \<Rightarrow> 'c"
  canvas_undo :: "'c \<Rightarrow> 'c"
  canvas_redo :: "'c \<Rightarrow> 'c"
  canvas_save :: "string \<Rightarrow> 'c \<Rightarrow> 'c"
  canvas_set_brush :: "string \<Rightarrow> 'c \<Rightarrow> 'c"
  canvas_set_color :: "pyval \<Rightarrow> 'c \<Rightarrow> 'c"
  canvas_set_brush_size :: "int \<Rightarrow> 'c \<Rightarrow> 'c"
  canvas_set_opacity :: "real \<Rightarrow> 'c \<Rightarrow> 'c"
  canvas_set_hardness :: "real \<Rightarrow> 'c \<Rightarrow> 'c"
  canvas_set_flow :: "real \<Rightarrow> 'c \<Rightarrow> 'c"
  canvas_brush_type :: "'c \<Rightarrow> string"
  BrushType :: "string list"
  BrushType_getitem :: "string \<Rightarrow> string option"
  str_upper :: "string \<Rightarrow> string"
  py_int :: "pyval \<Rightarrow> py_error + int"
  py_float :: "pyval \<Rightarrow> py_error + real"

text \<open>The lines the loop prints.\<close>

datatype message =
    Camera_Error
  | Invalid_brush_name string
  | Error_setting_brush_property pyval pyval py_error

text \<open>
  The attributes of \<^verbatim>\<open>GestureArtApp\<close> that \<^verbatim>\<open>run\<close> and \<^verbatim>\<open>mouse_callback\<close> read and write,
  the printed lines, and what the code after the loop does to the camera and the
  windows.
\<close>

record 'c GestureArtApp =
  canvas :: 'c
  last_draw_state :: bool
  mouse_point :: "point option"
  mouse_click :: bool
  printed :: "message list"
  released :: bool

text \<open>\<^verbatim>\<open>__init__\<close> (lines 9 to 22), given the canvas it constructs.\<close>

definition GestureArtApp_init :: "'c \<Rightarrow> 'c GestureArtApp" where
  "GestureArtApp_init c =
     \<lparr>canvas = c, last_draw_state = False, mouse_point = None, mouse_click = False,
      printed = [], released = False\<rparr>"

text \<open>
  What the outside world gives the loop in one iteration: whether the camera delivered a
  frame, the answers of the hand tracker (\<^verbatim>\<open>find_hands\<close>, \<^verbatim>\<open>find_positions\<close>), the
  answer of \<^verbatim>\<open>recognize_gesture\<close>, the UI manager's \<^verbatim>\<open>handle_interaction\<close> as a function
  of the two arguments the loop passes, the colour picker's current colour, the key
  \<^verbatim>\<open>waitKey\<close> returns and the mouse events delivered while it waits.
\<close>

record frame =
  ret :: bool
  hands_detected :: bool
  found :: bool
  landmarks :: "int list list"
  recognized :: "GestureType \<times> real \<times> GestureState"
  handle_interaction :: "point option \<Rightarrow> bool \<Rightarrow> (string \<times> pyval) list option"
  current_color :: pyval
  key :: int
  mouse_events :: "(int \<times> int \<times> int) list"

subsection \<open>Python operations the loop uses\<close>

definition py_index :: "'a list \<Rightarrow> nat \<Rightarrow> py_error + 'a" where
  "py_index xs i = (if i < length xs then Inr (xs ! i) else Inl IndexError)"

text \<open>\<^verbatim>\<open>d[k]\<close> and \<^verbatim>\<open>d.get(k)\<close> on a dictionary.\<close>

definition subscript :: "(string \<times> pyval) list \<Rightarrow> string \<Rightarrow> py_error + pyval" where
  "subscript d k = (case map_of d k of None \<Rightarrow> Inl KeyError | Some v \<Rightarrow> Inr v)"

definition dict_get :: "(string \<times> pyval) list \<Rightarrow> string \<Rightarrow> pyval" where
  "dict_get d k = (case map_of d k of None \<Rightarrow> PNone | Some v \<Rightarrow> v)"

fun truthy :: "pyval \<Rightarrow> bool" where
  "truthy PNone = False"
| "truthy (PBool b) = b"
| "truthy (PInt i) = (i \<noteq> 0)"
| "truthy (PFloat x) = (x \<noteq> 0)"
| "truthy (PStr s) = (s \<noteq> [])"
| "truthy (PTuple vs) = (vs \<noteq> [])"

text \<open>\<^verbatim>\<open>list.index\<close>: the first position of a value, \<^verbatim>\<open>ValueError\<close> when absent.\<close>

fun index_of :: "'a list \<Rightarrow> 'a \<Rightarrow> nat option" where
  "index_of [] x = None"
| "index_of (y # ys) x = (if y = x then Some 0 else map_option Suc (index_of ys x))"

subsection \<open>The gesture branch, lines 42 to 70\<close>

text \<open>Line 47: \<^verbatim>\<open>(landmarks[8][1], landmarks[8][2])\<close>.\<close>

definition fingertip :: "int list list \<Rightarrow> py_error + point" where
  "fingertip lms =
     (case py_index lms 8 of
        Inl e \<Rightarrow> Inl e
      | Inr lm \<Rightarrow>
          (case py_index lm 1 of
             Inl e \<Rightarrow> Inl e
           | Inr x \<Rightarrow> (case py_index lm 2 of Inl e \<Rightarrow> Inl e | Inr y \<Rightarrow> Inr (x, y))))"

text \<open>Lines 67 to 70: the brush after the current one, in the order of the enumeration.\<close>

definition tool_change :: "'c collaborators \<Rightarrow> 'c \<Rightarrow> py_error + 'c" where
  "tool_change w c =
     (let brushes = BrushType w in
      case index_of brushes (canvas_brush_type w c) of
        None \<Rightarrow> Inl ValueError
      | Some idx \<Rightarrow>
          Inr (canvas_set_brush w (brushes ! ((idx + 1) mod length brushes)) c))"

text \<open>Lines 57 to 70: the command of a completed gesture.\<close>

definition gesture_command :: "'c collaborators \<Rightarrow> GestureType \<Rightarrow> GestureState
    \<Rightarrow> 'c GestureArtApp \<Rightarrow> py_error + 'c GestureArtApp" where
  "gesture_command w gesture state s =
     (if state = COMPLETED then
        (if gesture = CLEAR then Inr (s\<lparr>canvas := canvas_clear w (canvas s)\<rparr>)
         else if gesture = UNDO then Inr (s\<lparr>canvas := canvas_undo w (canvas s)\<rparr>)
         else if gesture = REDO then Inr (s\<lparr>canvas := canvas_redo w (canvas s)\<rparr>)
         else if gesture = SAVE
           then Inr (s\<lparr>canvas := canvas_save w ''output/drawing.png'' (canvas s)\<rparr>)
         else if gesture = TOOL_CHANGE
           then (case tool_change w (canvas s) of
                   Inl e \<Rightarrow> Inl e
                 | Inr c \<Rightarrow> Inr (s\<lparr>canvas := c\<rparr>))
         else Inr s)
      else Inr s)"

text \<open>Lines 53 to 55: the pen-up after drawing frames.\<close>

definition seal_if_drawing :: "'c collaborators \<Rightarrow> 'c GestureArtApp \<Rightarrow> 'c GestureArtApp" where
  "seal_if_drawing w s =
     (if last_draw_state s
      then s\<lparr>canvas := canvas_draw_None w (canvas s), last_draw_state := False\<rparr>
      else s)"

text \<open>Lines 49 to 70.\<close>

definition gesture_block :: "'c collaborators \<Rightarrow> point \<Rightarrow> GestureType \<Rightarrow> GestureState
    \<Rightarrow> 'c GestureArtApp \<Rightarrow> py_error + 'c GestureArtApp" where
  "gesture_block w interaction_point gesture state s =
     (if gesture = DRAW then
        Inr (s\<lparr>canvas := canvas_draw w (Some interaction_point) 1.0 True (canvas s),
               last_draw_state := True\<rparr>)
      else gesture_command w gesture state (seal_if_drawing w s))"

text \<open>
  Lines 37 to 70. The result is the new state with the frame's gesture and interaction
  point, which line 72 uses.
\<close>

definition hand_phase :: "'c collaborators \<Rightarrow> frame \<Rightarrow> 'c GestureArtApp
    \<Rightarrow> py_error + ('c GestureArtApp \<times> GestureType \<times> point option)" where
  "hand_phase w f s =
     (if hands_detected f then
        (if found f then
           (case recognized f of
              (gesture, conf, state) \<Rightarrow>
                (case fingertip (landmarks f) of
                   Inl e \<Rightarrow> Inl e
                 | Inr interaction_point \<Rightarrow>
                     (case gesture_block w interaction_point gesture state s of
                        Inl e \<Rightarrow> Inl e
                      | Inr s1 \<Rightarrow> Inr (s1, gesture, Some interaction_point))))
         else Inr (s, NONE, mouse_point s))
      else Inr (s, NONE, mouse_point s))"

subsection \<open>The UI branch, lines 72 to 111\<close>

text \<open>
  Lines 89 to 96. \<^verbatim>\<open>interaction["name"]\<close> is read outside the \<^verbatim>\<open>try\<close>, so a missing key
  is not caught. A name that is not a string is passed over in silence.
\<close>

definition brush_selected :: "'c collaborators \<Rightarrow> (string \<times> pyval) list
    \<Rightarrow> 'c GestureArtApp \<Rightarrow> py_error + 'c GestureArtApp" where
  "brush_selected w interaction s =
     (case subscript interaction ''name'' of
        Inl e \<Rightarrow> Inl e
      | Inr brush_name \<Rightarrow>
          (case brush_name of
             PStr n \<Rightarrow>
               (case BrushType_getitem w (str_upper w n) of
                  Some brush_enum \<Rightarrow>
                    Inr (s\<lparr>canvas := canvas_set_brush w brush_enum (canvas s)\<rparr>)
                | None \<Rightarrow> Inr (s\<lparr>printed := printed s @ [Invalid_brush_name n]\<rparr>))
           | _ \<Rightarrow> Inr s))"

text \<open>Lines 102 to 109, the body of the \<^verbatim>\<open>try\<close>.\<close>

definition set_property :: "'c collaborators \<Rightarrow> pyval \<Rightarrow> pyval \<Rightarrow> 'c \<Rightarrow> py_error + 'c" where
  "set_property w prop val c =
     (if prop = PStr ''size'' then
        (case py_int w val of Inl e \<Rightarrow> Inl e | Inr n \<Rightarrow> Inr (canvas_set_brush_size w n c))
      else if prop = PStr ''opacity'' then
        (case py_float w val of Inl e \<Rightarrow> Inl e | Inr x \<Rightarrow> Inr (canvas_set_opacity w x c))
      else if prop = PStr ''hardness'' then
        (case py_float w val of Inl e \<Rightarrow> Inl e | Inr x \<Rightarrow> Inr (canvas_set_hardness w x c))
      else if prop = PStr ''flow'' then
        (case py_float w val of Inl e \<Rightarrow> Inl e | Inr x \<Rightarrow> Inr (canvas_set_flow w x c))
      else Inr c)"

text \<open>Lines 97 to 111.\<close>

definition brush_property_changed :: "'c collaborators \<Rightarrow> (string \<times> pyval) list
    \<Rightarrow> 'c GestureArtApp \<Rightarrow> 'c GestureArtApp" where
  "brush_property_changed w interaction s =
     (let prop = dict_get interaction ''name'';
          val = dict_get interaction ''value''
      in if truthy prop \<and> val \<noteq> PNone then
           (case set_property w prop val (canvas s) of
              Inl e \<Rightarrow> s\<lparr>printed := printed s @ [Error_setting_brush_property prop val e]\<rparr>
            | Inr c \<Rightarrow> s\<lparr>canvas := c\<rparr>)
         else s)"

text \<open>Lines 74 to 111: the command the UI manager returned, if any.\<close>

definition ui_dispatch :: "'c collaborators \<Rightarrow> frame \<Rightarrow> (string \<times> pyval) list option
    \<Rightarrow> 'c GestureArtApp \<Rightarrow> py_error + 'c GestureArtApp" where
  "ui_dispatch w f interaction s =
     (case interaction of
        None \<Rightarrow> Inr s
      | Some d \<Rightarrow>
          if d = [] then Inr s
          else
            (let action_type = dict_get d ''type'' in
             if action_type = PStr ''clear'' then Inr (s\<lparr>canvas := canvas_clear w (canvas s)\<rparr>)
             else if action_type = PStr ''undo''
               then Inr (s\<lparr>canvas := canvas_undo w (canvas s)\<rparr>)
             else if action_type = PStr ''redo''
               then Inr (s\<lparr>canvas := canvas_redo w (canvas s)\<rparr>)
             else if action_type = PStr ''save''
               then Inr (s\<lparr>canvas := canvas_save w ''output/drawing.png'' (canvas s)\<rparr>)
             else if action_type = PStr ''color_selected''
               then (case subscript d ''color'' of
                       Inl e \<Rightarrow> Inl e
                     | Inr rgb \<Rightarrow> Inr (s\<lparr>canvas := canvas_set_color w rgb (canvas s)\<rparr>))
             else if action_type = PStr ''slider_changed''
               then Inr (s\<lparr>canvas := canvas_set_color w (current_color f) (canvas s)\<rparr>)
             else if action_type = PStr ''brush_selected'' then brush_selected w d s
             else if action_type = PStr ''brush_property_changed''
               then Inr (brush_property_changed w d s)
             else Inr s))"

subsection \<open>One iteration and the loop\<close>

text \<open>
  Lines 34 to 121 of one iteration that got a frame. Lines 114 to 121 compose and show
  an image from \<^verbatim>\<open>get_transformed_canvas()\<close>, which writes no attribute of the
  application; they are not part of the state.
\<close>

definition frame_body :: "'c collaborators \<Rightarrow> frame \<Rightarrow> 'c GestureArtApp
    \<Rightarrow> py_error + 'c GestureArtApp" where
  "frame_body w f s =
     (case hand_phase w f s of
        Inl e \<Rightarrow> Inl e
      | Inr (s1, gesture, interaction_point) \<Rightarrow>
          (case ui_dispatch w f
                  (handle_interaction f interaction_point (gesture = SELECT \<or> mouse_click s1))
                  s1 of
             Inl e \<Rightarrow> Inl e
           | Inr s2 \<Rightarrow> Inr (s2\<lparr>mouse_click := False\<rparr>)))"

text \<open>
  Lines 129 to 132, \<^verbatim>\<open>mouse_callback\<close>; \<^verbatim>\<open>cv2.EVENT_LBUTTONDOWN\<close> is 1. The window
  system delivers the events while \<^verbatim>\<open>waitKey\<close> runs.
\<close>

definition mouse_callback :: "int \<times> int \<times> int \<Rightarrow> 'c GestureArtApp \<Rightarrow> 'c GestureArtApp" where
  "mouse_callback ev s =
     (case ev of
        (event, x, y) \<Rightarrow>
          (let s1 = s\<lparr>mouse_point := Some (x, y)\<rparr>
           in if event = 1 then s1\<lparr>mouse_click := True\<rparr> else s1))"

definition deliver :: "(int \<times> int \<times> int) list \<Rightarrow> 'c GestureArtApp \<Rightarrow> 'c GestureArtApp" where
  "deliver evs s = fold mouse_callback evs s"

text \<open>Line 123: \<^verbatim>\<open>cv2.waitKey(1) & 0xFF == ord('q')\<close>.\<close>

definition quit_key :: "frame \<Rightarrow> bool" where
  "quit_key f \<longleftrightarrow> key f AND 255 = 113"

text \<open>
  How a run over the frames supplied so far stands: still looping, or left through one
  of the two \<^verbatim>\<open>break\<close>s.
\<close>

datatype run_status = Running | Camera_Failed | Quit

text \<open>
  Lines 28 to 124, the \<^verbatim>\<open>while True\<close> loop over the frames the world supplies. An
  exception of the body leaves \<^verbatim>\<open>run\<close> (\<open>Inl\<close>).
\<close>

fun loop :: "'c collaborators \<Rightarrow> 'c GestureArtApp \<Rightarrow> frame list
    \<Rightarrow> py_error + (run_status \<times> 'c GestureArtApp)" where
  "loop w s [] = Inr (Running, s)"
| "loop w s (f # fs) =
     (if \<not> ret f then Inr (Camera_Failed, s\<lparr>printed := printed s @ [Camera_Error]\<rparr>)
      else
        (case frame_body w f s of
           Inl e \<Rightarrow> Inl e
         | Inr s1 \<Rightarrow>
             (let s2 = deliver (mouse_events f) s1
              in if quit_key f then Inr (Quit, s2) else loop w s2 fs)))"

text \<open>Lines 126 and 127, after the loop.\<close>

definition shutdown :: "'c GestureArtApp \<Rightarrow> 'c GestureArtApp" where
  "shutdown s = s\<lparr>released := True\<rparr>"

text \<open>\<^verbatim>\<open>run\<close>, lines 24 to 127.\<close>

definition run :: "'c collaborators \<Rightarrow> 'c GestureArtApp \<Rightarrow> frame list
    \<Rightarrow> py_error + (run_status \<times> 'c GestureArtApp)" where
  "run w s fs =
     (case loop w s fs of
        Inl e \<Rightarrow> Inl e
      | Inr (status, s1) \<Rightarrow>
          if status = Running then Inr (status, s1) else Inr (status, shutdown s1))"

subsection \<open>Frames for concrete runs\<close>

definition four_brushes :: "string list" where
  "four_brushes = [''PENCIL'', ''MARKER'', ''AIRBRUSH'', ''ERASER'']"

text \<open>A frame with no hand, no UI command, no key and no mouse event.\<close>

definition idle_frame :: frame where
  "idle_frame =
     \<lparr>ret = True, hands_detected = False, found = False, landmarks = [],
      recognized = (NONE, 0, STATE_NONE), handle_interaction = (\<lambda>p clicked. None),
      current_color = PNone, key = - 1, mouse_events = []\<rparr>"

text \<open>Twenty-one landmarks \<open>[id, x, y]\<close> with the index fingertip at \<open>(x, y)\<close>.\<close>

definition hand_at :: "int \<Rightarrow> int \<Rightarrow> int list list" where
  "hand_at x y =
     map (\<lambda>i. [int i, 0, 0]) [0..<8] @ [[8, x, y]] @ map (\<lambda>i. [int i, 0, 0]) [9..<21]"

text \<open>A frame in which the recogniser reports a gesture for a hand at \<open>(x, y)\<close>.\<close>

definition gesture_frame :: "GestureType \<Rightarrow> GestureState \<Rightarrow> int \<Rightarrow> int \<Rightarrow> frame" where
  "gesture_frame g st x y =
     idle_frame\<lparr>hands_detected := True, found := True, landmarks := hand_at x y,
                recognized := (g, 0.9, st)\<rparr>"

subsection \<open>The loop on a canvas that records its calls\<close>

text \<open>
  A canvas that does nothing but remember, in order, the calls made on it, together with
  the brush type last set. Run on it, the loop shows which canvas methods it calls, with
  which arguments.
\<close>

datatype canvas_call =
    Draw "point option" real bool
  | Draw_None
  | Clear
  | Undo
  | Redo
  | Save string
  | Set_brush string
  | Set_color pyval
  | Set_brush_size int
  | Set_opacity real
  | Set_hardness real
  | Set_flow real

text \<open>
  For the concrete runs below: \<^verbatim>\<open>str.upper\<close> as it is on strings of ASCII characters,
  and the two conversions on the numbers the runs may pass (\<^verbatim>\<open>int\<close> of an int,
  \<^verbatim>\<open>float\<close> of a float). The runs use ASCII names only.
\<close>

definition ascii_upper_char :: "char \<Rightarrow> char" where
  "ascii_upper_char ch =
     (case map_of (zip ''abcdefghijklmnopqrstuvwxyz'' ''ABCDEFGHIJKLMNOPQRSTUVWXYZ'') ch of
        None \<Rightarrow> ch | Some u \<Rightarrow> u)"

definition ascii_upper :: "string \<Rightarrow> string" where
  "ascii_upper s = map ascii_upper_char s"

definition int_of_int :: "pyval \<Rightarrow> py_error + int" where
  "int_of_int v = (case v of PInt i \<Rightarrow> Inr i | _ \<Rightarrow> Inl TypeError)"

definition float_of_float :: "pyval \<Rightarrow> py_error + real" where
  "float_of_float v = (case v of PFloat x \<Rightarrow> Inr x | _ \<Rightarrow> Inl TypeError)"

definition called :: "canvas_call \<Rightarrow> string \<times> canvas_call list \<Rightarrow> string \<times> canvas_call list" where
  "called call c = (fst c, snd c @ [call])"

definition recorder :: "string list \<Rightarrow> (string \<times> canvas_call list) collaborators" where
  "recorder brushes =
     \<lparr>canvas_draw = (\<lambda>pt pressure is_drawing. called (Draw pt pressure is_drawing)),
      canvas_draw_None = called Draw_None,
      canvas_clear = called Clear, canvas_undo = called Undo, canvas_redo = called Redo,
      canvas_save = (\<lambda>path. called (Save path)),
      canvas_set_brush = (\<lambda>b c. (b, snd c @ [Set_brush b])),
      canvas_set_color = (\<lambda>rgb. called (Set_color rgb)),
      canvas_set_brush_size = (\<lambda>n. called (Set_brush_size n)),
      canvas_set_opacity = (\<lambda>x. called (Set_opacity x)),
      canvas_set_hardness = (\<lambda>x. called (Set_hardness x)),
      canvas_set_flow = (\<lambda>x. called (Set_flow x)),
      canvas_brush_type = fst,
      BrushType = brushes,
      BrushType_getitem = (\<lambda>name. if name \<in> set brushes then Some name else None),
      str_upper = ascii_upper, py_int = int_of_int, py_float = float_of_float\<rparr>"

text \<open>\<open>k\<close> completed TOOL_CHANGE gestures in a row, through lines 57 to 70.\<close>

fun tool_changes :: "'c collaborators \<Rightarrow> nat \<Rightarrow> 'c GestureArtApp \<Rightarrow> py_error + 'c GestureArtApp" where
  "tool_changes w 0 s = Inr s"
| "tool_changes w (Suc k) s =
     (case gesture_command w TOOL_CHANGE COMPLETED s of
        Inl e \<Rightarrow> Inl e
      | Inr s1 \<Rightarrow> tool_changes w k s1)"

text \<open>
  What a notion of "a stroke is active" asks of a canvas: a pen-up ends the stroke, and
  no method other than \<^verbatim>\<open>draw\<close> with a point starts one.
\<close>

definition pen_discipline :: "('c \<Rightarrow> bool) \<Rightarrow> 'c collaborators \<Rightarrow> bool" where
  "pen_discipline active w \<longleftrightarrow>
     (\<forall>c. \<not> active (canvas_draw_None w c)) \<and>
     (\<forall>c. \<not> active c \<longrightarrow> \<not> active (canvas_clear w c)) \<and>
     (\<forall>c. \<not> active c \<longrightarrow> \<not> active (canvas_undo w c)) \<and>
     (\<forall>c. \<not> active c \<longrightarrow> \<not> active (canvas_redo w c)) \<and>
     (\<forall>c path. \<not> active c \<longrightarrow> \<not> active (canvas_save w path c)) \<and>
     (\<forall>c b. \<not> active c \<longrightarrow> \<not> active (canvas_set_brush w b c)) \<and>
     (\<forall>c rgb. \<not> active c \<longrightarrow> \<not> active (canvas_set_color w rgb c)) \<and>
     (\<forall>c n. \<not> active c \<longrightarrow> \<not> active (canvas_set_brush_size w n c)) \<and>
     (\<forall>c x. \<not> active c \<longrightarrow> \<not> active (canvas_set_opacity w x c)) \<and>
     (\<forall>c x. \<not> active c \<longrightarrow> \<not> active (canvas_set_hardness w x c)) \<and>
     (\<forall>c x. \<not> active c \<longrightarrow> \<not> active (canvas_set_flow w x c))"

text \<open>
  The application tracks the pen when every active stroke is one it knows of: the flag
  \<^verbatim>\<open>last_draw_state\<close> is set whenever a stroke is active.
\<close>

definition tracks_pen :: "('c \<Rightarrow> bool) \<Rightarrow> 'c GestureArtApp \<Rightarrow> bool" where
  "tracks_pen active s \<longleftrightarrow> (active (canvas s) \<longrightarrow> last_draw_state s)"

text \<open>
  On the recording canvas the pen is down when the latest \<^verbatim>\<open>draw\<close> call carried a point
  and said it was drawing.
\<close>

fun pen_after :: "bool \<Rightarrow> canvas_call \<Rightarrow> bool" where
  "pen_after down (Draw pt pressure is_drawing) = (pt \<noteq> None \<and> is_drawing)"
| "pen_after down Draw_None = False"
| "pen_after down call = down"

definition pen_down :: "string \<times> canvas_call list \<Rightarrow> bool" where
  "pen_down c = foldl pen_after False (snd c)"

text \<open>A frame with no hand in which the user presses \<^verbatim>\<open>q\<close>.\<close>

definition quit_frame :: frame where
  "quit_frame = idle_frame\<lparr>key := 113\<rparr>"

text \<open>
  A frame in which the recogniser reports DRAW for a fingertip at \<open>(10, 20)\<close> and the
  user presses \<^verbatim>\<open>q\<close>.
\<close>

definition quit_while_drawing :: frame where
  "quit_while_drawing = (gesture_frame DRAW IN_PROGRESS 10 20)\<lparr>key := 113\<rparr>"

text \<open>The application on a fresh recording canvas, and one in the middle of a stroke.\<close>

definition app0 :: "(string \<times> canvas_call list) GestureArtApp" where
  "app0 = GestureArtApp_init (''PENCIL'', [])"

definition app_drawing :: "(string \<times> canvas_call list) GestureArtApp" where
  "app_drawing = app0\<lparr>canvas := (''PENCIL'', [Draw (Some (10, 20)) 1 True]),
                      last_draw_state := True\<rparr>"

section \<open>Undo and redo on the canvas engine\<close>

lemma reapply_moved [simp]:
  "reapply (c\<lparr>position := p, raster := r\<rparr>) e = reapply c e"
  by (cases e) (simp_all add: blank_def)


















text \<open>
  Claim C2: whatever the history state, so also after any number of undos, a new edit (a
  clear, or the pen-up that commits the active stroke) keeps the entries up to the cursor,
  puts its own entry after them and drops the rest; a \<^verbatim>\<open>redo()\<close> after it changes nothing.
\<close>

theorem edit_discards_redo:
  "redo (clear c) = clear c
   \<and> history (clear c) = take (position c) (history c) @ [ClearEntry (raster c)]
   \<and> (active_stroke c \<noteq> None \<longrightarrow>
        redo (draw_None c) = draw_None c
      \<and> redo (draw render None pressure is_drawing c) = draw render None pressure is_drawing c
      \<and> (\<exists>e. history (draw_None c) = take (position c) (history c) @ [e]))"
  by (auto simp: redo_def clear_def commit_def draw_None_def draw_def seal_stroke_def)

theorem edit_discards_redo_witness:
  "active_stroke redrawn_canvas \<noteq> None
   \<and> length (history redrawn_canvas) = 1 \<and> position redrawn_canvas = 0
   \<and> redo (draw_None redrawn_canvas) = draw_None redrawn_canvas
   \<and> length (history (draw_None redrawn_canvas)) = 1
   \<and> redo (clear undone_canvas) = clear undone_canvas"
proof -
  have a: "active_stroke redrawn_canvas \<noteq> None"
    by (simp add: redrawn_canvas_def draw_def Let_def)
  have h: "history redrawn_canvas = history undone_canvas"
    and p: "position redrawn_canvas = position undone_canvas"
    by (simp_all add: redrawn_canvas_def draw_def Let_def)
  have u: "length (history undone_canvas) = 1" "position undone_canvas = 0"
    by (simp_all add: undone_canvas_def undo_def draw_None_def seal_stroke_def draw_def
        commit_def canvas0_def CanvasEngine_init_def Let_def)
  from edit_discards_redo[of redrawn_canvas dot_renderer 1 True] a
  have "redo (draw_None redrawn_canvas) = draw_None redrawn_canvas"
    and "\<exists>e. history (draw_None redrawn_canvas) =
           take (position redrawn_canvas) (history redrawn_canvas) @ [e]"
    by simp_all
  moreover from edit_discards_redo[of undone_canvas dot_renderer 1 True]
  have "redo (clear undone_canvas) = clear undone_canvas" by simp
  ultimately show ?thesis using a h p u by auto
qed

section \<open>The gesture branch keeps the pen tracked\<close>

lemma fingertip_hand_at [simp]: "fingertip (hand_at x y) = Inr (x, y)"
  by (simp add: fingertip_def hand_at_def py_index_def nth_append)

lemma pen_kept:
  assumes "pen_discipline active w" and "\<not> active c"
  shows "\<not> active (canvas_clear w c)" and "\<not> active (canvas_undo w c)"
    and "\<not> active (canvas_redo w c)" and "\<not> active (canvas_save w path c)"
    and "\<not> active (canvas_set_brush w b c)" and "\<not> active (canvas_set_color w rgb c)"
    and "\<not> active (canvas_set_brush_size w n c)" and "\<not> active (canvas_set_opacity w x c)"
    and "\<not> active (canvas_set_hardness w x c)" and "\<not> active (canvas_set_flow w x c)"
  using assms by (simp_all add: pen_discipline_def)

lemma pen_up:
  "pen_discipline active w \<Longrightarrow> \<not> active (canvas_draw_None w c)"
  by (simp add: pen_discipline_def)

lemma tracks_pen_canvas:
  assumes "tracks_pen active s" and "\<not> active (canvas s) \<Longrightarrow> \<not> active c"
  shows "tracks_pen active (s\<lparr>canvas := c\<rparr>)"
  using assms by (auto simp: tracks_pen_def)

lemma tracks_pen_printed [simp]:
  "tracks_pen active (s\<lparr>printed := p\<rparr>) = tracks_pen active s"
  by (simp add: tracks_pen_def)

lemma tracks_pen_mouse_click [simp]:
  "tracks_pen active (s\<lparr>mouse_click := b\<rparr>) = tracks_pen active s"
  by (simp add: tracks_pen_def)

lemma tool_change_pen:
  assumes "pen_discipline active w" and "\<not> active c" and "tool_change w c = Inr c'"
  shows "\<not> active c'"
  using assms pen_kept(5)[OF assms(1,2)]
  by (auto simp: tool_change_def Let_def split: option.splits)

lemma gesture_command_tracks:
  assumes d: "pen_discipline active w" and t: "tracks_pen active s"
    and r: "gesture_command w g st s = Inr s'"
  shows "tracks_pen active s'"
proof (cases "st = COMPLETED")
  case False
  with r t show ?thesis by (simp add: gesture_command_def)
next
  case True
  note k = pen_kept[OF d, where c = "canvas s"]
  consider "g = CLEAR" | "g = UNDO" | "g = REDO" | "g = SAVE" | "g = TOOL_CHANGE"
    | "g \<noteq> CLEAR" "g \<noteq> UNDO" "g \<noteq> REDO" "g \<noteq> SAVE" "g \<noteq> TOOL_CHANGE"
    by blast
  then show ?thesis
  proof cases
    case 1
    with r True show ?thesis using k t by (auto simp: gesture_command_def tracks_pen_def)
  next
    case 2
    with r True show ?thesis using k t by (auto simp: gesture_command_def tracks_pen_def)
  next
    case 3
    with r True show ?thesis using k t by (auto simp: gesture_command_def tracks_pen_def)
  next
    case 4
    with r True show ?thesis using k t by (auto simp: gesture_command_def tracks_pen_def)
  next
    case 5
    with r True obtain c' where c': "tool_change w (canvas s) = Inr c'" "s' = s\<lparr>canvas := c'\<rparr>"
      by (auto simp: gesture_command_def split: sum.splits)
    show ?thesis
      unfolding c'(2) using tool_change_pen[OF d _ c'(1)] t by (auto simp: tracks_pen_def)
  next
    case 6
    with r True t show ?thesis by (simp add: gesture_command_def)
  qed
qed

lemma seal_if_drawing_tracks:
  assumes "pen_discipline active w" and "tracks_pen active s"
  shows "tracks_pen active (seal_if_drawing w s)" and "\<not> active (canvas (seal_if_drawing w s))"
  using assms pen_up[OF assms(1)] by (auto simp: seal_if_drawing_def tracks_pen_def)

lemma gesture_block_tracks:
  assumes "pen_discipline active w" and "tracks_pen active s"
    and "gesture_block w ip g st s = Inr s'"
  shows "tracks_pen active s'"
proof (cases "g = DRAW")
  case True
  with assms(3) show ?thesis by (auto simp: gesture_block_def tracks_pen_def)
next
  case False
  with assms(3) have "gesture_command w g st (seal_if_drawing w s) = Inr s'"
    by (simp add: gesture_block_def)
  from gesture_command_tracks[OF assms(1) seal_if_drawing_tracks(1)[OF assms(1,2)] this]
  show ?thesis .
qed

lemma hand_phase_tracks:
  assumes "pen_discipline active w" and "tracks_pen active s"
    and "hand_phase w f s = Inr (s', g, ip)"
  shows "tracks_pen active s'"
  using assms(3) assms(2) gesture_block_tracks[OF assms(1,2)]
  by (auto simp: hand_phase_def split: if_splits prod.splits sum.splits)

lemma set_property_pen:
  assumes "pen_discipline active w" and "\<not> active c" and "set_property w prop val c = Inr c'"
  shows "\<not> active c'"
  using assms(2,3) pen_kept[OF assms(1,2)]
  by (auto simp: set_property_def split: if_splits sum.splits)

lemma brush_property_changed_tracks:
  assumes "pen_discipline active w" and "tracks_pen active s"
  shows "tracks_pen active (brush_property_changed w d s)"
  using assms(2) set_property_pen[OF assms(1)]
  by (auto simp: brush_property_changed_def Let_def tracks_pen_def split: sum.splits)

lemma brush_selected_tracks:
  assumes "pen_discipline active w" and "tracks_pen active s"
    and "brush_selected w d s = Inr s'"
  shows "tracks_pen active s'"
  using assms(3) assms(2) pen_kept(5)[OF assms(1)]
  by (auto simp: brush_selected_def tracks_pen_def
      split: sum.splits pyval.splits option.splits if_splits)

lemma ui_dispatch_tracks:
  assumes d: "pen_discipline active w" and t: "tracks_pen active s"
    and r: "ui_dispatch w f i s = Inr s'"
  shows "tracks_pen active s'"
proof (cases i)
  case None
  with r t show ?thesis by (simp add: ui_dispatch_def)
next
  case (Some dict)
  note k = pen_kept[OF d, where c = "canvas s"]
  show ?thesis
  proof (cases "dict = []")
    case True
    with r t Some show ?thesis by (simp add: ui_dispatch_def)
  next
    case False
    from r Some False have
      "s' = s\<lparr>canvas := canvas_clear w (canvas s)\<rparr>
       \<or> s' = s\<lparr>canvas := canvas_undo w (canvas s)\<rparr>
       \<or> s' = s\<lparr>canvas := canvas_redo w (canvas s)\<rparr>
       \<or> s' = s\<lparr>canvas := canvas_save w ''output/drawing.png'' (canvas s)\<rparr>
       \<or> (\<exists>rgb. s' = s\<lparr>canvas := canvas_set_color w rgb (canvas s)\<rparr>)
       \<or> brush_selected w dict s = Inr s'
       \<or> s' = brush_property_changed w dict s
       \<or> s' = s"
      by (auto simp: ui_dispatch_def Let_def split: if_splits sum.splits)
    then show ?thesis
      using k t brush_selected_tracks[OF d t, of dict s'] brush_property_changed_tracks[OF d t, of dict]
      by (auto simp: tracks_pen_def)
  qed
qed

lemma frame_body_tracks:
  assumes "pen_discipline active w" and "tracks_pen active s"
    and "frame_body w f s = Inr s'"
  shows "tracks_pen active s'"
proof -
  from assms(3) obtain s1 g ip s2 where
    h: "hand_phase w f s = Inr (s1, g, ip)"
    and u: "ui_dispatch w f (handle_interaction f ip (g = SELECT \<or> mouse_click s1)) s1 = Inr s2"
    and e: "s' = s2\<lparr>mouse_click := False\<rparr>"
    by (auto simp: frame_body_def split: sum.splits prod.splits)
  from ui_dispatch_tracks[OF assms(1) hand_phase_tracks[OF assms(1,2) h] u] e
  show ?thesis by simp
qed

lemma mouse_callback_keeps [simp]:
  "canvas (mouse_callback ev s) = canvas s"
  "last_draw_state (mouse_callback ev s) = last_draw_state s"
  "printed (mouse_callback ev s) = printed s"
  by (cases ev; simp add: mouse_callback_def Let_def)+

lemma deliver_keeps [simp]:
  "canvas (deliver evs s) = canvas s"
  "last_draw_state (deliver evs s) = last_draw_state s"
  "printed (deliver evs s) = printed s"
  unfolding deliver_def by (induction evs arbitrary: s; simp)+

lemma deliver_tracks [simp]:
  "tracks_pen active (deliver evs s) = tracks_pen active s"
  by (simp add: tracks_pen_def)

lemma loop_tracks:
  assumes "pen_discipline active w"
  shows "tracks_pen active s \<Longrightarrow> loop w s fs = Inr (status, s') \<Longrightarrow> tracks_pen active s'"
proof (induction fs arbitrary: s)
  case Nil
  then show ?case by simp
next
  case (Cons f fs)
  show ?case
  proof (cases "ret f")
    case False
    with Cons.prems show ?thesis by auto
  next
    case True
    with Cons.prems(2) obtain s1 where b: "frame_body w f s = Inr s1"
      by (auto split: sum.splits)
    from frame_body_tracks[OF assms Cons.prems(1) b]
    have t: "tracks_pen active (deliver (mouse_events f) s1)" by simp
    show ?thesis
    proof (cases "quit_key f")
      case q: True
      with Cons.prems(2) True b t show ?thesis by (auto simp: Let_def)
    next
      case q: False
      with Cons.prems(2) True b have "loop w (deliver (mouse_events f) s1) fs = Inr (status, s')"
        by (simp add: Let_def)
      from Cons.IH[OF t this] show ?thesis .
    qed
  qed
qed

lemma ui_dispatch_forms:
  assumes "ui_dispatch w f i s = Inr s'"
  shows "(\<exists>c. s' = s\<lparr>canvas := c\<rparr>) \<or> (\<exists>p. s' = s\<lparr>printed := p\<rparr>) \<or> s' = s"
proof (cases i)
  case None
  with assms show ?thesis by (simp add: ui_dispatch_def)
next
  case (Some dict)
  show ?thesis
  proof (cases "dict = []")
    case True
    with assms Some show ?thesis by (simp add: ui_dispatch_def)
  next
    case False
    from assms Some False have
      "(\<exists>c. s' = s\<lparr>canvas := c\<rparr>)
       \<or> brush_selected w dict s = Inr s'
       \<or> s' = brush_property_changed w dict s
       \<or> s' = s"
      by (auto simp: ui_dispatch_def Let_def split: if_splits sum.splits)
    moreover have "brush_selected w dict s = Inr s' \<Longrightarrow> ?thesis"
      by (auto simp: brush_selected_def split: sum.splits pyval.splits option.splits if_splits)
    moreover have "s' = brush_property_changed w dict s \<Longrightarrow> ?thesis"
      by (auto simp: brush_property_changed_def Let_def split: sum.splits)
    ultimately show ?thesis by blast
  qed
qed

lemma ui_dispatch_flag:
  "ui_dispatch w f i s = Inr s' \<Longrightarrow> last_draw_state s' = last_draw_state s"
  using ui_dispatch_forms[of w f i s s'] by auto

lemma draw_frame_sets_flag:
  assumes "hands_detected f" and "found f" and "fst (recognized f) = DRAW"
    and "frame_body w f s = Inr s'"
  shows "last_draw_state s'"
proof -
  from assms(4) obtain s1 g ip s2 where
    h: "hand_phase w f s = Inr (s1, g, ip)"
    and u: "ui_dispatch w f (handle_interaction f ip (g = SELECT \<or> mouse_click s1)) s1 = Inr s2"
    and e: "s' = s2\<lparr>mouse_click := False\<rparr>"
    by (auto simp: frame_body_def split: sum.splits prod.splits)
  from h assms(1,2,3) have "last_draw_state s1"
    by (cases "recognized f") (auto simp: hand_phase_def gesture_block_def split: sum.splits)
  with ui_dispatch_flag[OF u] e show ?thesis by simp
qed

lemma loop_snoc_running:
  "loop w s (fs @ [f]) = Inr (Running, s') \<Longrightarrow>
   \<exists>s1 s2. loop w s fs = Inr (Running, s1) \<and> frame_body w f s1 = Inr s2
          \<and> s' = deliver (mouse_events f) s2"
proof (induction fs arbitrary: s)
  case Nil
  then show ?case by (auto simp: Let_def split: if_splits sum.splits)
next
  case (Cons a fs)
  from Cons.prems obtain t where
    t: "frame_body w a s = Inr t" "ret a" "\<not> quit_key a"
       "loop w (deliver (mouse_events a) t) (fs @ [f]) = Inr (Running, s')"
    by (auto simp: Let_def split: if_splits sum.splits)
  from Cons.IH[OF t(4)] t(1,2,3) show ?case by (auto simp: Let_def)
qed

lemma flag_after_draw_frame:
  assumes "loop w s0 fs = Inr (Running, s)" and "fs \<noteq> []"
    and "hands_detected (last fs)" and "found (last fs)" and "fst (recognized (last fs)) = DRAW"
  shows "last_draw_state s"
proof -
  from assms(2) obtain fs' f where fs: "fs = fs' @ [f]"
    by (cases fs rule: rev_cases) auto
  from loop_snoc_running[of w s0 fs' f s] assms(1) fs obtain s1 s2 where
    "frame_body w f s1 = Inr s2" "s = deliver (mouse_events f) s2"
    by auto
  with draw_frame_sets_flag[of f w s1 s2] assms(3,4,5) fs show ?thesis
    by (simp add: deliver_keeps)
qed

text \<open>
  Claim C8: a gesture other than DRAW reaches its command (clear, undo, redo, save, tool
  change) only through the pen-up of lines 53 to 55. In every state the loop reaches from
  a state that tracks the pen, the command of the next frame runs on the canvas that the
  pen-up leaves, on which no stroke is active, for any canvas on which a pen-up ends the
  stroke and only \<^verbatim>\<open>draw\<close> starts one. When the frame before was a drawing frame the
  flag \<^verbatim>\<open>last_draw_state\<close> is set, and when it is set that canvas is the one after
  \<^verbatim>\<open>draw(None)\<close>.
\<close>

theorem pen_up_before_command:
  assumes "pen_discipline active w" and "tracks_pen active s0"
    and "loop w s0 fs = Inr (Running, s)" and "gesture \<noteq> DRAW"
  shows "gesture_block w ip gesture st s = gesture_command w gesture st (seal_if_drawing w s)
       \<and> \<not> active (canvas (seal_if_drawing w s))
       \<and> (last_draw_state s \<longrightarrow> canvas (seal_if_drawing w s) = canvas_draw_None w (canvas s))
       \<and> (fs \<noteq> [] \<and> hands_detected (last fs) \<and> found (last fs)
            \<and> fst (recognized (last fs)) = DRAW \<longrightarrow> last_draw_state s)"
  using seal_if_drawing_tracks(2)[OF assms(1) loop_tracks[OF assms(1,2,3)]] assms(4)
    flag_after_draw_frame[OF assms(3)]
  by (simp add: gesture_block_def seal_if_drawing_def)

lemma recorder_pen_discipline: "pen_discipline pen_down (recorder brushes)"
  by (simp add: pen_discipline_def recorder_def called_def pen_down_def)

theorem pen_up_before_command_witness:
  "gesture_block (recorder four_brushes) (30, 40) CLEAR COMPLETED app_drawing =
     Inr (app0\<lparr>canvas := (''PENCIL'', [Draw (Some (10, 20)) 1 True, Draw_None, Clear])\<rparr>)
   \<and> pen_down (canvas app_drawing)
   \<and> \<not> pen_down (canvas (seal_if_drawing (recorder four_brushes) app_drawing))"
proof -
  have t: "tracks_pen pen_down app0"
    by (simp add: tracks_pen_def pen_down_def app0_def GestureArtApp_init_def)
  have l: "loop (recorder four_brushes) app0 [gesture_frame DRAW IN_PROGRESS 10 20] =
             Inr (Running, app_drawing)"
    by (simp add: frame_body_def hand_phase_def gesture_frame_def idle_frame_def
        gesture_block_def recorder_def called_def ui_dispatch_def deliver_def quit_key_def
        app0_def app_drawing_def GestureArtApp_init_def)
  have g: "CLEAR \<noteq> DRAW" by simp
  from pen_up_before_command[OF recorder_pen_discipline t l g, of "(30, 40)" COMPLETED]
  show ?thesis
    by (simp add: gesture_command_def seal_if_drawing_def recorder_def called_def
        app0_def app_drawing_def GestureArtApp_init_def pen_down_def)
qed

section \<open>Tool change, brush names and the draw call\<close>

lemma index_of_distinct:
  "distinct xs \<Longrightarrow> i < length xs \<Longrightarrow> index_of xs (xs ! i) = Some i"
proof (induction xs arbitrary: i)
  case Nil
  then show ?case by simp
next
  case (Cons x xs)
  show ?case
  proof (cases i)
    case 0
    then show ?thesis by simp
  next
    case (Suc j)
    with Cons.prems have "j < length xs" and "xs ! j \<noteq> x" and "distinct xs"
      by auto
    with Cons.IH[of j] Suc show ?thesis by simp
  qed
qed

lemma tool_change_next:
  assumes "distinct (BrushType w)" and "i < length (BrushType w)"
    and "canvas_brush_type w c = BrushType w ! i"
  shows "tool_change w c =
           Inr (canvas_set_brush w (BrushType w ! ((i + 1) mod length (BrushType w))) c)"
  using assms by (simp add: tool_change_def Let_def index_of_distinct)

lemma tool_changes_brush:
  assumes d: "distinct (BrushType w)"
    and law: "\<And>b c. canvas_brush_type w (canvas_set_brush w b c) = b"
  shows "i < length (BrushType w) \<Longrightarrow> canvas_brush_type w (canvas s) = BrushType w ! i \<Longrightarrow>
         \<exists>s'. tool_changes w k s = Inr s' \<and>
              canvas_brush_type w (canvas s') = BrushType w ! ((i + k) mod length (BrushType w))"
proof (induction k arbitrary: s i)
  case 0
  then show ?case by simp
next
  case (Suc k)
  let ?n = "length (BrushType w)"
  let ?j = "(i + 1) mod ?n"
  let ?s1 = "s\<lparr>canvas := canvas_set_brush w (BrushType w ! ?j) (canvas s)\<rparr>"
  have step: "gesture_command w TOOL_CHANGE COMPLETED s = Inr ?s1"
    using tool_change_next[OF d Suc.prems] by (simp add: gesture_command_def)
  have "0 < ?n" using Suc.prems(1) by (cases "BrushType w") simp_all
  then have j: "?j < ?n" by simp
  have b: "canvas_brush_type w (canvas ?s1) = BrushType w ! ?j"
    by (simp add: law)
  from Suc.IH[OF j b] obtain s' where
    s': "tool_changes w k ?s1 = Inr s'"
        "canvas_brush_type w (canvas s') = BrushType w ! ((?j + k) mod ?n)"
    by blast
  have "(?j + k) mod ?n = (i + Suc k) mod ?n"
    by (simp add: mod_add_left_eq)
  with s' step show ?case by simp
qed

lemma wrap_index:
  assumes "i < n" and "j < (n::nat)"
  shows "(i + (j + n - i) mod n) mod n = j"
proof -
  have "(i + (j + n - i) mod n) mod n = (i + (j + n - i)) mod n"
    by (simp add: mod_add_right_eq)
  also have "i + (j + n - i) = j + n" using assms by simp
  finally show ?thesis using assms by simp
qed

text \<open>
  Claim C9: a completed TOOL_CHANGE gesture sets the brush that follows the current one
  in the order of the enumeration, the first one after the last; \<open>k\<close> such gestures in
  a row move \<open>k\<close> places round the enumeration, so every brush type is reached within
  one round. The current brush is a member of the enumeration, whose members are
  distinct, and the canvas reports the brush last set.
\<close>

theorem tool_change_cycles:
  assumes "distinct (BrushType w)" and "i < length (BrushType w)"
    and "canvas_brush_type w (canvas s) = BrushType w ! i"
    and "\<And>b c. canvas_brush_type w (canvas_set_brush w b c) = b"
  shows "gesture_command w TOOL_CHANGE COMPLETED s =
           Inr (s\<lparr>canvas := canvas_set_brush w
                  (BrushType w ! ((i + 1) mod length (BrushType w))) (canvas s)\<rparr>)
       \<and> (\<exists>s'. tool_changes w k s = Inr s' \<and>
              canvas_brush_type w (canvas s') =
                BrushType w ! ((i + k) mod length (BrushType w)))
       \<and> (\<forall>j < length (BrushType w). \<exists>m < length (BrushType w). \<exists>s'.
              tool_changes w m s = Inr s' \<and> canvas_brush_type w (canvas s') = BrushType w ! j)"
proof -
  let ?n = "length (BrushType w)"
  note run = tool_changes_brush[OF assms(1) assms(4) assms(2,3)]
  have first: "gesture_command w TOOL_CHANGE COMPLETED s =
      Inr (s\<lparr>canvas := canvas_set_brush w (BrushType w ! ((i + 1) mod ?n)) (canvas s)\<rparr>)"
    using tool_change_next[OF assms(1,2,3)] by (simp add: gesture_command_def)
  have all: "\<exists>m < ?n. \<exists>s'. tool_changes w m s = Inr s'
                \<and> canvas_brush_type w (canvas s') = BrushType w ! j" if j: "j < ?n" for j
  proof -
    let ?m = "(j + ?n - i) mod ?n"
    have "0 < ?n" using j by (cases "BrushType w") simp_all
    then have "?m < ?n" by simp
    moreover from run[of ?m] obtain s' where
      "tool_changes w ?m s = Inr s'"
      "canvas_brush_type w (canvas s') = BrushType w ! ((i + ?m) mod ?n)"
      by blast
    ultimately show ?thesis
      using wrap_index[OF assms(2) j] by auto
  qed
  from first run[of k] all show ?thesis by blast
qed

theorem tool_change_cycles_witness:
  "gesture_command (recorder four_brushes) TOOL_CHANGE COMPLETED
     (GestureArtApp_init (''ERASER'', [])) =
   Inr (GestureArtApp_init (''PENCIL'', [Set_brush ''PENCIL'']))"
  using tool_change_cycles[of "recorder four_brushes" 3 "GestureArtApp_init (''ERASER'', [])" 0]
  by (simp add: recorder_def four_brushes_def GestureArtApp_init_def)

text \<open>
  Claim C7: a \<^verbatim>\<open>brush_selected\<close> command whose name is unknown, that is, a string for
  which the lookup \<^verbatim>\<open>BrushType[brush_name.upper()]\<close> raises \<^verbatim>\<open>KeyError\<close>, prints
  "Invalid brush name" and changes nothing else: the iteration goes on and the canvas is
  the one it was. This holds for the upper-casing and the enumeration as parameters, so
  for Python's own.
\<close>

theorem unknown_brush_name_ignored:
  assumes "dict_get d ''type'' = PStr ''brush_selected''"
    and "map_of d ''name'' = Some (PStr n)"
    and "BrushType_getitem w (str_upper w n) = None"
  shows "ui_dispatch w f (Some d) s = Inr (s\<lparr>printed := printed s @ [Invalid_brush_name n]\<rparr>)"
proof -
  from assms(2) have "d \<noteq> []" by auto
  then show ?thesis
    using assms by (simp add: ui_dispatch_def brush_selected_def subscript_def Let_def)
qed

theorem unknown_brush_name_ignored_witness:
  "ui_dispatch (recorder four_brushes) idle_frame
     (Some [(''type'', PStr ''brush_selected''), (''name'', PStr ''crayon'')]) app0 =
   Inr (app0\<lparr>printed := [Invalid_brush_name ''crayon'']\<rparr>)"
  using unknown_brush_name_ignored[of "[(''type'', PStr ''brush_selected''), (''name'', PStr ''crayon'')]"
      "''crayon''" "recorder four_brushes" idle_frame app0]
  by (simp add: dict_get_def ascii_upper_def ascii_upper_char_def recorder_def
      four_brushes_def app0_def GestureArtApp_init_def)

text \<open>
  Claim C10: in a frame with a hand whose gesture is DRAW, the loop makes exactly one
  canvas call in the gesture branch, \<^verbatim>\<open>draw\<close> with the point made of entries 1 and 2 of
  landmark 8, pressure 1.0 and \<open>is_drawing\<close> true, whatever the landmarks, the
  confidence and the state the recogniser reports.
\<close>

theorem draw_call_arguments:
  assumes "hands_detected f" and "found f" and "fst (recognized f) = DRAW"
    and "8 < length (landmarks f)" and "2 < length (landmarks f ! 8)"
  shows "hand_phase w f s =
           Inr (s\<lparr>canvas := canvas_draw w (Some (landmarks f ! 8 ! 1, landmarks f ! 8 ! 2)) 1 True
                              (canvas s),
                  last_draw_state := True\<rparr>,
                DRAW, Some (landmarks f ! 8 ! 1, landmarks f ! 8 ! 2))"
  using assms
  by (cases "recognized f") (simp add: hand_phase_def fingertip_def py_index_def gesture_block_def)

theorem draw_call_arguments_witness:
  "hand_phase (recorder four_brushes) (gesture_frame DRAW IN_PROGRESS 10 20) app0 =
     Inr (app0\<lparr>canvas := (''PENCIL'', [Draw (Some (10, 20)) 1 True]), last_draw_state := True\<rparr>,
          DRAW, Some (10, 20))"
  using draw_call_arguments[of "gesture_frame DRAW IN_PROGRESS 10 20" "recorder four_brushes" app0]
  by (simp add: gesture_frame_def idle_frame_def hand_at_def nth_append recorder_def called_def
      app0_def GestureArtApp_init_def)

section \<open>Leaving the loop\<close>

text \<open>
  Claim C6, as stated: when the loop ends on the quit signal, a stroke in flight is
  sealed as by a pen-up and so committed. It fails on the run of one frame in which the
  user draws and presses \<^verbatim>\<open>q\<close>: the run ends with the flag \<^verbatim>\<open>last_draw_state\<close> still
  set, and the only call the canvas has received is the \<^verbatim>\<open>draw\<close> with the point; no
  \<^verbatim>\<open>draw(None)\<close> follows it.
\<close>

theorem quit_leaves_stroke_in_flight:
  "run (recorder four_brushes) app0 [quit_while_drawing] =
     Inr (Quit, \<lparr>canvas = (''PENCIL'', [Draw (Some (10, 20)) 1 True]), last_draw_state = True,
                 mouse_point = None, mouse_click = False, printed = [], released = True\<rparr>)"
  by (simp add: run_def frame_body_def hand_phase_def quit_while_drawing_def gesture_frame_def
      idle_frame_def gesture_block_def recorder_def called_def ui_dispatch_def deliver_def
      quit_key_def shutdown_def app0_def GestureArtApp_init_def)

text \<open>
  Claim C6, amended: when the loop ends on the quit key, \<^verbatim>\<open>run\<close> makes no canvas call
  after the body of the last frame. The canvas and the flag \<^verbatim>\<open>last_draw_state\<close> are left
  as that frame left them; no pen-up is made for a stroke in flight.
\<close>

theorem quit_makes_no_canvas_call:
  assumes "ret f" and "quit_key f" and "frame_body w f s = Inr s1"
  shows "run w s (f # fs) = Inr (Quit, shutdown (deliver (mouse_events f) s1))
       \<and> canvas (shutdown (deliver (mouse_events f) s1)) = canvas s1
       \<and> last_draw_state (shutdown (deliver (mouse_events f) s1)) = last_draw_state s1"
proof -
  have l: "loop w s (f # fs) = Inr (Quit, deliver (mouse_events f) s1)"
    using assms by simp
  show ?thesis
    unfolding run_def l by (simp add: shutdown_def)
qed

theorem quit_makes_no_canvas_call_witness:
  "run (recorder four_brushes) app_drawing [quit_frame] =
     Inr (Quit, app_drawing\<lparr>released := True\<rparr>)"
proof -
  have r: "ret quit_frame" and q: "quit_key quit_frame"
    by (simp_all add: quit_frame_def idle_frame_def quit_key_def)
  have b: "frame_body (recorder four_brushes) quit_frame app_drawing = Inr app_drawing"
    by (simp add: frame_body_def hand_phase_def quit_frame_def idle_frame_def ui_dispatch_def
        app_drawing_def app0_def GestureArtApp_init_def)
  from quit_makes_no_canvas_call[OF r q b, of "[]"] show ?thesis
    by (simp add: shutdown_def deliver_def quit_frame_def idle_frame_def)
qed

section \<open>The debounce state machine\<close>

lemma observe_config [simp]:
  "detection_threshold (snd (observe r raw)) = detection_threshold r"
  "debounce_window (snd (observe r raw)) = debounce_window r"
  by (simp_all add: observe_def Let_def)

lemma init_fields [simp]:
  "detection_threshold (GestureRecognizer_init thr n) = thr"
  "debounce_window (GestureRecognizer_init thr n) = n"
  "observations (GestureRecognizer_init thr n) = []"
  "last_fired (GestureRecognizer_init thr n) = NONE"
  by (simp_all add: GestureRecognizer_init_def)




lemma length_takeWhile_take:
  "length (takeWhile P (take n xs)) = min n (length (takeWhile P xs))"
proof (induction xs arbitrary: n)
  case Nil
  then show ?case by simp
next
  case (Cons x xs)
  then show ?case by (cases n) simp_all
qed

lemma held_frames_push:
  "held_frames g (take n ((g, c) # obs)) = min n (Suc (held_frames g obs))"
  unfolding held_frames_def length_takeWhile_take by simp

lemma held_step:
  assumes n: "1 \<le> debounce_window r" and g: "g \<noteq> NONE" "g \<noteq> DRAW"
    and h: "held_frames g (observations r) = min j (debounce_window r)"
    and lf: "last_fired r = g \<longleftrightarrow> debounce_window r \<le> j"
    and c: "detection_threshold r \<le> c"
  shows "summary (fst (observe r (g, c))) = phase (debounce_window r) g j"
    and "held_frames g (observations (snd (observe r (g, c)))) = min (Suc j) (debounce_window r)"
    and "last_fired (snd (observe r (g, c))) = g \<longleftrightarrow> debounce_window r \<le> Suc j"
  using assms
  by (auto simp: observe_def Let_def held_frames_push summary_def gesture_of_def state_of_def
      phase_def min_def)

lemma held_run:
  assumes g: "g \<noteq> NONE" "g \<noteq> DRAW"
  shows "1 \<le> debounce_window r \<Longrightarrow>
         held_frames g (observations r) = min j (debounce_window r) \<Longrightarrow>
         (last_fired r = g \<longleftrightarrow> debounce_window r \<le> j) \<Longrightarrow>
         \<forall>c \<in> set confs. detection_threshold r \<le> c \<Longrightarrow>
         map summary (reports r (map (Pair g) confs)) =
           map (phase (debounce_window r) g) [j ..< j + length confs]"
proof (induction confs arbitrary: r j)
  case Nil
  then show ?case by simp
next
  case (Cons c confs)
  let ?r = "snd (observe r (g, c))"
  have c: "detection_threshold r \<le> c" using Cons.prems(4) by simp
  note st = held_step[OF Cons.prems(1) g Cons.prems(2,3) c]
  have ih: "map summary (reports ?r (map (Pair g) confs)) =
          map (phase (debounce_window ?r) g) [Suc j ..< Suc j + length confs]"
    using Cons.prems st by (intro Cons.IH) simp_all
  have u: "[j ..< j + length (c # confs)] = j # [Suc j ..< Suc j + length confs]"
    by (subst upt_conv_Cons) simp_all
  show ?case
    unfolding u using st(1) ih by (simp del: upt_Suc)
qed

lemma reports_append:
  "reports r (xs @ ys) = reports r xs @ reports (session_after r xs) ys"
  by (induction xs arbitrary: r) simp_all

lemma length_reports [simp]: "length (reports r xs) = length xs"
  by (induction xs arbitrary: r) simp_all

lemma session_after_snoc:
  "session_after r (xs @ [raw]) = snd (observe (session_after r xs) raw)"
  by (induction xs arbitrary: r) simp_all

lemma session_after_config [simp]:
  "detection_threshold (session_after r xs) = detection_threshold r"
  "debounce_window (session_after r xs) = debounce_window r"
  by (induction xs arbitrary: r; simp)+

lemma observe_other:
  assumes "1 \<le> debounce_window r" and "g \<noteq> NONE"
    and "effective (detection_threshold r) raw \<noteq> g"
  shows "held_frames g (observations (snd (observe r raw))) = 0"
    and "last_fired (snd (observe r raw)) \<noteq> g"
proof -
  obtain m where m: "debounce_window r = Suc m"
    using assms(1) by (cases "debounce_window r") simp_all
  show "held_frames g (observations (snd (observe r raw))) = 0"
    using assms(2,3)
    by (auto simp: observe_def Let_def effective_def held_frames_def m split: if_splits)
  show "last_fired (snd (observe r raw)) \<noteq> g"
    using assms(2,3) by (auto simp: observe_def Let_def effective_def m split: if_splits)
qed

lemma fresh_after:
  assumes "1 \<le> n" and "g \<noteq> NONE"
    and "pre = [] \<or> effective thr (last pre) \<noteq> g"
  shows "held_frames g (observations (session_after (GestureRecognizer_init thr n) pre)) = 0
       \<and> last_fired (session_after (GestureRecognizer_init thr n) pre) \<noteq> g"
proof (cases pre rule: rev_cases)
  case Nil
  with assms(2) show ?thesis
    by (simp add: held_frames_def)
next
  case (snoc xs raw)
  let ?r = "session_after (GestureRecognizer_init thr n) xs"
  have w: "1 \<le> debounce_window ?r"
    using assms(1) by simp
  from snoc assms(3) have "effective (detection_threshold ?r) raw \<noteq> g"
    by simp
  from observe_other[OF w assms(2) this] show ?thesis
    by (simp add: snoc session_after_snoc)
qed

lemma map_const_replicate:
  "(\<forall>x \<in> set xs. f x = v) \<Longrightarrow> map f xs = replicate (length xs) v"
  by (induction xs) simp_all

lemma phases_shape:
  assumes "1 \<le> n" and "n \<le> k"
  shows "map (phase n g) [0 ..< k] =
           replicate (n - 1) (g, IN_PROGRESS) @ [(g, COMPLETED)]
             @ replicate (k - n) (NONE, STATE_NONE)"
proof -
  have split: "[0 ..< k] = [0 ..< n - 1] @ [n - 1] @ [n ..< k]"
  proof -
    have "[0 ..< k] = [0 ..< n] @ [n ..< k]"
      using assms(2) by (metis le_add_diff_inverse upt_add_eq_append zero_le)
    moreover have "[0 ..< n] = [0 ..< n - 1] @ [n - 1]"
      using assms(1) by (cases n) simp_all
    ultimately show ?thesis by simp
  qed
  have "\<forall>x \<in> set [0 ..< n - 1]. phase n g x = (g, IN_PROGRESS)"
    by (auto simp: phase_def)
  from map_const_replicate[OF this]
  have a: "map (phase n g) [0 ..< n - 1] = replicate (n - 1) (g, IN_PROGRESS)"
    by simp
  have b: "phase n g (n - 1) = (g, COMPLETED)"
    using assms(1) by (simp add: phase_def)
  have "\<forall>x \<in> set [n ..< k]. phase n g x = (NONE, STATE_NONE)"
    by (auto simp: phase_def)
  from map_const_replicate[OF this]
  have c: "map (phase n g) [n ..< k] = replicate (k - n) (NONE, STATE_NONE)"
    by simp
  show ?thesis
    unfolding split using a b c by simp
qed

text \<open>
  Claim C3: in any input stream, a gesture \<open>g\<close> other than DRAW that is held at or above
  the threshold for at least \<open>n\<close> frames, \<open>n\<close> the debounce window, after a frame that
  did not show it (or from the start of the session), is reported as a candidate on the
  first \<open>n - 1\<close> frames of the run, as COMPLETED on frame \<open>n\<close>, and as nothing on every
  later frame of the run: COMPLETED is reported exactly once. With a window of 3 the
  first COMPLETED is on frame 3.
\<close>

theorem completed_fires_once:
  assumes "1 \<le> n" and "g \<noteq> NONE" and "g \<noteq> DRAW"
    and "pre = [] \<or> effective thr (last pre) \<noteq> g"
    and "\<forall>c \<in> set confs. thr \<le> c"
    and "n \<le> length confs"
  shows "map summary (drop (length pre)
           (reports (GestureRecognizer_init thr n) (pre @ map (Pair g) confs))) =
         replicate (n - 1) (g, IN_PROGRESS) @ [(g, COMPLETED)]
           @ replicate (length confs - n) (NONE, STATE_NONE)
       \<and> length (filter (\<lambda>rep. state_of rep = COMPLETED) (drop (length pre)
           (reports (GestureRecognizer_init thr n) (pre @ map (Pair g) confs)))) = 1"
proof -
  let ?start = "GestureRecognizer_init thr n"
  let ?r = "session_after ?start pre"
  let ?held = "drop (length pre) (reports ?start (pre @ map (Pair g) confs))"
  have h: "?held = reports ?r (map (Pair g) confs)"
    by (simp add: reports_append)
  have w: "debounce_window ?r = n" and t: "detection_threshold ?r = thr"
    by simp_all
  from fresh_after[OF assms(1,2,4)]
  have f: "held_frames g (observations ?r) = min 0 (debounce_window ?r)"
    and l: "last_fired ?r = g \<longleftrightarrow> debounce_window ?r \<le> 0"
    using assms(1) by simp_all
  have "map summary (reports ?r (map (Pair g) confs)) =
          map (phase (debounce_window ?r) g) [0 ..< 0 + length confs]"
    using assms(1,5) by (intro held_run[OF assms(2,3) _ f l]) simp_all
  then have shape: "map summary ?held =
      replicate (n - 1) (g, IN_PROGRESS) @ [(g, COMPLETED)]
        @ replicate (length confs - n) (NONE, STATE_NONE)"
    using phases_shape[OF assms(1,6)] by (simp add: h)
  have "length (filter (\<lambda>rep. state_of rep = COMPLETED) ?held) =
        length (filter (\<lambda>p. snd p = COMPLETED) (map summary ?held))"
    by (simp add: filter_map comp_def summary_def)
  also have "\<dots> = 1"
    unfolding shape by simp
  finally show ?thesis using shape by simp
qed

theorem completed_fires_once_witness:
  "map summary (reports (GestureRecognizer_init 0.75 3)
      [(CLEAR, 0.9), (CLEAR, 0.9), (CLEAR, 0.9), (CLEAR, 0.9)]) =
     [(CLEAR, IN_PROGRESS), (CLEAR, IN_PROGRESS), (CLEAR, COMPLETED), (NONE, STATE_NONE)]"
  using completed_fires_once[of 3 CLEAR "[]" "0.75" "[0.9, 0.9, 0.9, 0.9]"]
  by (simp add: numeral_3_eq_3)

end
